theory Spec2Isabelle
  imports Complex_Main "HOL-Library.Word"
begin

unbundle bit_operations_syntax

section \<open>Shared data model of the HTTP API (system\_design)\<close>

text \<open>
  \<^verbatim>\<open>datetime\<close> values are counted in microseconds (the resolution of Python's
  \<^verbatim>\<open>datetime\<close>); \<^verbatim>\<open>datetime.utcnow()\<close> is an explicit argument \<open>now\<close> of every
  handler that reads the clock. A JSON payload is a small tree.
\<close>

type_synonym datetime = int

datatype json = JNull | JBool bool | JInt int | JStr string | JList "json list"
  | JDict "(string \<times> json) list"

text \<open>
  Every \<^verbatim>\<open>raise\<close> of a handler is a value: \<^verbatim>\<open>HTTPException(status_code, detail)\<close>, the
  \<^verbatim>\<open>AttributeError\<close> of reading \<^verbatim>\<open>.value\<close> on \<^verbatim>\<open>None\<close>, or the \<^verbatim>\<open>StatementError\<close> that
  \<^verbatim>\<open>db.commit()\<close> raises when a value cannot be bound to its column.
\<close>

datatype error = HTTPException int string | AttributeError | StatementError

text \<open>
  A table is the list of its rows. \<^verbatim>\<open>query.filter(P).first()\<close> is \<^const>\<open>find\<close>;
  assigning attributes of the row object that \<^verbatim>\<open>first()\<close> returned and then calling
  \<^verbatim>\<open>db.commit()\<close> writes that row back in place.
\<close>

fun commit_row :: "('a \<Rightarrow> bool) \<Rightarrow> 'a \<Rightarrow> 'a list \<Rightarrow> 'a list" where
  "commit_row P r [] = []"
| "commit_row P r (x # xs) = (if P x then r # xs else x # commit_row P r xs)"

section \<open>The two TaskStatus classes\<close>

text \<open>
  enums.py declares the class that routers/agent\_tasks.py imports (five members).
\<close>

datatype TaskStatus = PENDING | IN_PROGRESS | COMPLETED | FAILED | CANCELLED

fun status_value :: "TaskStatus \<Rightarrow> string" where
  "status_value PENDING = ''pending''"
| "status_value IN_PROGRESS = ''in_progress''"
| "status_value COMPLETED = ''completed''"
| "status_value FAILED = ''failed''"
| "status_value CANCELLED = ''cancelled''"

definition is_terminal :: "TaskStatus \<Rightarrow> bool" where
  "is_terminal s = (s \<in> {COMPLETED, FAILED, CANCELLED})"

text \<open>
  db\_schema\_design.py declares a class of the same name (four members, no CANCELLED); the
  column \<^verbatim>\<open>agent_tasks.status\<close> is \<^verbatim>\<open>Enum(TaskStatus)\<close> of that class, so a row loaded from
  the table carries one of its members, or \<^verbatim>\<open>None\<close> (the column is nullable).
\<close>

datatype ColumnTaskStatus = COL_PENDING | COL_IN_PROGRESS | COL_COMPLETED | COL_FAILED

fun column_status_value :: "ColumnTaskStatus \<Rightarrow> string" where
  "column_status_value COL_PENDING = ''pending''"
| "column_status_value COL_IN_PROGRESS = ''in_progress''"
| "column_status_value COL_COMPLETED = ''completed''"
| "column_status_value COL_FAILED = ''failed''"

text \<open>The member of enums.py that has the name of a member of the column's class.\<close>

fun same_name :: "ColumnTaskStatus \<Rightarrow> TaskStatus" where
  "same_name COL_PENDING = PENDING"
| "same_name COL_IN_PROGRESS = IN_PROGRESS"
| "same_name COL_COMPLETED = COMPLETED"
| "same_name COL_FAILED = FAILED"

text \<open>
  What the attribute \<^verbatim>\<open>task.status\<close> can hold: \<^verbatim>\<open>None\<close>, a member of the column's class
  (after a load) or a member of the router's class (after an assignment in a handler).
  Members of two \<^verbatim>\<open>Enum\<close> classes are never equal, whatever their names: Python's \<^verbatim>\<open>!=\<close> on
  these values is \<open>\<noteq>\<close> on this datatype.
\<close>

datatype status_attr = NoStatus | Column ColumnTaskStatus | Member TaskStatus

fun attr_value :: "status_attr \<Rightarrow> error + string" where
  "attr_value NoStatus = Inl AttributeError"
| "attr_value (Column c) = Inr (column_status_value c)"
| "attr_value (Member m) = Inr (status_value m)"

section \<open>routers/agent\_tasks.py\<close>

text \<open>
  The \<^verbatim>\<open>agent_tasks\<close> row of db\_schema\_design.py. Every column but the three keys
  \<^verbatim>\<open>task_id\<close>, \<^verbatim>\<open>agent_id\<close>, \<^verbatim>\<open>session_id\<close> is nullable.
\<close>

record AgentTask =
  task_id :: int
  task_agent_id :: int
  task_session_id :: int
  dialogue_id :: "int option"
  input_data :: "json option"
  output_data :: "json option"
  status :: status_attr
  error_reason :: "string option"
  duration_ms :: "int option"
  task_created_at :: "datetime option"

type_synonym task_table = "AgentTask list"

definition get_task :: "int \<Rightarrow> task_table \<Rightarrow> AgentTask option" where
  "get_task tid db = find (\<lambda>t. task_id t = tid) db"

text \<open>
  \<^verbatim>\<open>db.commit()\<close> flushes the changed row. The \<^verbatim>\<open>Enum\<close> column binds a value through the
  members of its own class, so a member of the router's class is refused and the commit
  raises; the request's session is then closed without a commit (\<^verbatim>\<open>get_db\<close>) and the table
  is as it was.
\<close>

definition storable :: "AgentTask \<Rightarrow> bool" where
  "storable task = (case status task of Member m \<Rightarrow> False | _ \<Rightarrow> True)"

definition commit_task :: "int \<Rightarrow> AgentTask \<Rightarrow> task_table \<Rightarrow> error + task_table" where
  "commit_task tid task db =
     (if storable task then Inr (commit_row (\<lambda>t. task_id t = tid) task db)
      else Inl StatementError)"

text \<open>
  \<^verbatim>\<open>start_agent_task\<close>: 404 when the row is absent; when
  \<^verbatim>\<open>task.status != TaskStatus.PENDING\<close> (the router's PENDING) the handler builds the detail
  from \<^verbatim>\<open>task.status.value\<close> and raises 400; otherwise it assigns the router's IN\_PROGRESS,
  commits and refreshes.
\<close>

definition start_agent_task :: "int \<Rightarrow> task_table \<Rightarrow> (error + AgentTask) \<times> task_table" where
  "start_agent_task tid db =
     (case get_task tid db of
        None \<Rightarrow> (Inl (HTTPException 404 ''Task not found''), db)
      | Some task \<Rightarrow>
          if status task \<noteq> Member PENDING then
            (case attr_value (status task) of
               Inl e \<Rightarrow> (Inl e, db)
             | Inr v \<Rightarrow> (Inl (HTTPException 400 (''Task is already '' @ v)), db))
          else
            (let task' = task\<lparr>status := Member IN_PROGRESS\<rparr>
             in case commit_task tid task' db of
                  Inl e \<Rightarrow> (Inl e, db)
                | Inr db' \<Rightarrow> (Inr task', db')))"

definition complete_agent_task ::
  "int \<Rightarrow> json \<Rightarrow> int \<Rightarrow> task_table \<Rightarrow> (error + AgentTask) \<times> task_table" where
  "complete_agent_task tid out dur db =
     (case get_task tid db of
        None \<Rightarrow> (Inl (HTTPException 404 ''Task not found''), db)
      | Some task \<Rightarrow>
          (let task' = task\<lparr>status := Member COMPLETED, output_data := Some out,
                             duration_ms := Some dur\<rparr>
           in case commit_task tid task' db of
                Inl e \<Rightarrow> (Inl e, db)
              | Inr db' \<Rightarrow> (Inr task', db')))"

text \<open>
  \<^verbatim>\<open>fail_agent_task\<close>: \<^verbatim>\<open>if duration_ms:\<close> is Python truthiness of an
  \<^verbatim>\<open>Optional[int]\<close>: false for \<^verbatim>\<open>None\<close> and for \<^verbatim>\<open>0\<close>. \<open>fail_assignments\<close> is the row
  object as the handler has changed it when it calls \<^verbatim>\<open>db.commit()\<close>.
\<close>

definition truthy :: "int option \<Rightarrow> bool" where
  "truthy d = (case d of None \<Rightarrow> False | Some n \<Rightarrow> n \<noteq> 0)"

definition fail_assignments :: "string \<Rightarrow> int option \<Rightarrow> AgentTask \<Rightarrow> AgentTask" where
  "fail_assignments reason dur task =
     (let task1 = task\<lparr>status := Member FAILED, error_reason := Some reason\<rparr>
      in if truthy dur then task1\<lparr>duration_ms := dur\<rparr> else task1)"

definition fail_agent_task ::
  "int \<Rightarrow> string \<Rightarrow> int option \<Rightarrow> task_table \<Rightarrow> (error + AgentTask) \<times> task_table" where
  "fail_agent_task tid reason dur db =
     (case get_task tid db of
        None \<Rightarrow> (Inl (HTTPException 404 ''Task not found''), db)
      | Some task \<Rightarrow>
          (let task' = fail_assignments reason dur task
           in case commit_task tid task' db of
                Inl e \<Rightarrow> (Inl e, db)
              | Inr db' \<Rightarrow> (Inr task', db')))"

text \<open>A stored task used by the closed examples below.\<close>

definition task7 :: "ColumnTaskStatus \<Rightarrow> AgentTask" where
  "task7 st = \<lparr>task_id = 7, task_agent_id = 1, task_session_id = 1, dialogue_id = None,
     input_data = None, output_data = None, status = Column st, error_reason = None,
     duration_ms = Some 40, task_created_at = Some 0\<rparr>"

section \<open>routers/sessions.py\<close>

text \<open>
  The \<^verbatim>\<open>sessions\<close> row. \<^verbatim>\<open>session_token\<close> carries a unique constraint and
  \<^verbatim>\<open>expires_at\<close> is not nullable.
\<close>

record Session =
  session_id :: int
  session_user_id :: string
  session_token :: string
  session_created_at :: "datetime option"
  expires_at :: datetime
  session_context :: "json option"

type_synonym session_table = "Session list"

text \<open>\<^verbatim>\<open>timedelta(hours=h)\<close> in microseconds.\<close>

definition timedelta_hours :: "int \<Rightarrow> int" where
  "timedelta_hours h = h * 3600 * 1000000"

definition get_session_by_token :: "datetime \<Rightarrow> string \<Rightarrow> session_table \<Rightarrow> error + Session" where
  "get_session_by_token now token db =
     (case find (\<lambda>s. session_token s = token) db of
        None \<Rightarrow> Inl (HTTPException 404 ''Session not found'')
      | Some session \<Rightarrow>
          if expires_at session < now then Inl (HTTPException 401 ''Session expired'')
          else Inr session)"

definition refresh_session ::
  "datetime \<Rightarrow> int \<Rightarrow> session_table \<Rightarrow> (error + Session) \<times> session_table" where
  "refresh_session now sid db =
     (case find (\<lambda>s. session_id s = sid) db of
        None \<Rightarrow> (Inl (HTTPException 404 ''Session not found''), db)
      | Some session \<Rightarrow>
          (let session' = session\<lparr>expires_at := now + timedelta_hours 24\<rparr>
           in (Inr session', commit_row (\<lambda>s. session_id s = sid) session' db)))"

definition session3 :: "datetime \<Rightarrow> Session" where
  "session3 e = \<lparr>session_id = 3, session_user_id = ''u-1'', session_token = ''tok-3'',
     session_created_at = Some 0, expires_at = e, session_context = None\<rparr>"

section \<open>routers/users.py\<close>

datatype UserType = ADMIN | USER | GUEST | PREMIUM

text \<open>The \<^verbatim>\<open>users\<close> row; \<^verbatim>\<open>user_id\<close> is the primary key.\<close>

record User =
  user_id :: string
  user_type :: UserType
  email :: string
  password_hash :: string
  username :: "string option"
  user_created_at :: "datetime option"
  updated_at :: "datetime option"
  last_active_at :: "datetime option"
  deleted_at :: "datetime option"

type_synonym user_table = "User list"

definition live_with_id :: "string \<Rightarrow> User \<Rightarrow> bool" where
  "live_with_id uid u = (user_id u = uid \<and> deleted_at u = None)"

text \<open>
  \<^verbatim>\<open>get_users\<close>: the rows with \<^verbatim>\<open>deleted_at IS NULL\<close>, then OFFSET \<^verbatim>\<open>skip\<close> and LIMIT
  \<^verbatim>\<open>limit\<close>. Both are counts here; what the database does with a negative one is not
  part of the handler.
\<close>

definition get_users :: "nat \<Rightarrow> nat \<Rightarrow> user_table \<Rightarrow> User list" where
  "get_users skip limit db = take limit (drop skip (filter (\<lambda>u. deleted_at u = None) db))"

definition get_user :: "string \<Rightarrow> user_table \<Rightarrow> error + User" where
  "get_user uid db =
     (case find (live_with_id uid) db of
        None \<Rightarrow> Inl (HTTPException 404 ''User not found'')
      | Some user \<Rightarrow> Inr user)"

text \<open>
  \<^verbatim>\<open>users.updated_at\<close> is declared with \<^verbatim>\<open>onupdate=datetime.utcnow\<close>: every UPDATE of a
  row also writes the clock, read when the commit flushes (\<open>flushed\<close>, a later reading than
  the handler's own \<open>now\<close>). A flush emits an UPDATE only when an attribute has changed.
\<close>

definition delete_user ::
  "datetime \<Rightarrow> datetime \<Rightarrow> string \<Rightarrow> user_table \<Rightarrow> (error + unit) \<times> user_table" where
  "delete_user now flushed uid db =
     (case find (live_with_id uid) db of
        None \<Rightarrow> (Inl (HTTPException 404 ''User not found''), db)
      | Some user \<Rightarrow>
          (Inr (), commit_row (live_with_id uid)
                     (user\<lparr>deleted_at := Some now, updated_at := Some flushed\<rparr>) db))"

text \<open>
  \<^verbatim>\<open>activate_user\<close> looks the row up by id alone, with no filter on \<^verbatim>\<open>deleted_at\<close>, and
  returns the row as refreshed from the table.
\<close>

definition activate_user ::
  "datetime \<Rightarrow> datetime \<Rightarrow> string \<Rightarrow> user_table \<Rightarrow> (error + User) \<times> user_table" where
  "activate_user now flushed uid db =
     (case find (\<lambda>u. user_id u = uid) db of
        None \<Rightarrow> (Inl (HTTPException 404 ''User not found''), db)
      | Some user \<Rightarrow>
          (let user' = (if last_active_at user = Some now then user
                        else user\<lparr>last_active_at := Some now, updated_at := Some flushed\<rparr>)
           in (Inr user', commit_row (\<lambda>u. user_id u = uid) user' db)))"

definition user_named :: "string \<Rightarrow> User" where
  "user_named uid = \<lparr>user_id = uid, user_type = USER, email = uid @ ''@example.com'',
     password_hash = ''x'', username = None, user_created_at = Some 0, updated_at = Some 0,
     last_active_at = None, deleted_at = None\<rparr>"

section \<open>utils.py\<close>

text \<open>
  \<^verbatim>\<open>hashlib.pbkdf2_hmac('sha256', password, salt, 100000)\<close> and \<^verbatim>\<open>str.encode('utf-8')\<close> are
  library functions: they are the parameters \<open>kdf\<close> and \<open>enc\<close>. The salt that
  \<^verbatim>\<open>secrets.token_hex(16)\<close> draws is an explicit argument; \<^verbatim>\<open>token_hex(n)\<close> returns
  \<open>2 * n\<close> lower-case hexadecimal digits.
\<close>

type_synonym bytes = "8 word list"

definition hexdigits :: string where
  "hexdigits = ''0123456789abcdef''"

definition hex_byte :: "8 word \<Rightarrow> string" where
  "hex_byte b = [hexdigits ! (unat b div 16), hexdigits ! (unat b mod 16)]"

definition hex :: "bytes \<Rightarrow> string" where
  "hex bs = concat (map hex_byte bs)"

definition is_token_hex :: "nat \<Rightarrow> string \<Rightarrow> bool" where
  "is_token_hex n s = (length s = 2 * n \<and> list_all (\<lambda>c. c \<in> set hexdigits) s)"

text \<open>\<^verbatim>\<open>str.split(sep)\<close> for a one-character separator.\<close>

fun split :: "char \<Rightarrow> string \<Rightarrow> string list" where
  "split sep [] = [[]]"
| "split sep (c # cs) =
     (if c = sep then [] # split sep cs
      else (case split sep cs of [] \<Rightarrow> [[c]] | w # ws \<Rightarrow> (c # w) # ws))"

definition hash_password ::
  "(bytes \<Rightarrow> bytes \<Rightarrow> bytes) \<Rightarrow> (string \<Rightarrow> bytes) \<Rightarrow> string \<Rightarrow> string \<Rightarrow> string" where
  "hash_password kdf enc salt password =
     (let hashed = kdf (enc password) (enc salt) in salt @ ''$'' @ hex hashed)"

text \<open>
  \<^verbatim>\<open>salt, stored_hash = hashed_password.split('$')\<close> raises unless the split has exactly
  two parts; the \<^verbatim>\<open>except\<close> clause turns that into \<^verbatim>\<open>False\<close>.
\<close>

definition verify_password ::
  "(bytes \<Rightarrow> bytes \<Rightarrow> bytes) \<Rightarrow> (string \<Rightarrow> bytes) \<Rightarrow> string \<Rightarrow> string \<Rightarrow> bool" where
  "verify_password kdf enc password hashed_password =
     (case split (CHR ''$'') hashed_password of
        [salt, stored_hash] \<Rightarrow> hex (kdf (enc password) (enc salt)) = stored_hash
      | _ \<Rightarrow> False)"

text \<open>Stand-ins for the two library functions, used by the closed examples.\<close>

definition toy_enc :: "string \<Rightarrow> bytes" where
  "toy_enc s = map (\<lambda>c. of_nat (of_char c)) s"

definition toy_kdf :: "bytes \<Rightarrow> bytes \<Rightarrow> bytes" where
  "toy_kdf pw salt = map (\<lambda>b. b + 1) (pw @ take 2 salt)"

section \<open>The news-agent drafts (streamlit\_prototype)\<close>

subsection \<open>estimate\_tokens\<close>

text \<open>
  A finite Python \<^verbatim>\<open>float\<close> is a rational number, and each floating-point operation
  (the conversion of \<^verbatim>\<open>len(text)\<close>, the product, the quotient) returns the exact result
  rounded to a double: \<open>rnd\<close> is that rounding. The constants \<^verbatim>\<open>0.5\<close> and \<^verbatim>\<open>2.0\<close> are
  doubles. \<^verbatim>\<open>int(x)\<close> truncates towards zero.
\<close>

definition py_int :: "rat \<Rightarrow> int" where
  "py_int x = (if 0 \<le> x then \<lfloor>x\<rfloor> else \<lceil>x\<rceil>)"

definition estimate_tokens_v1 :: "(rat \<Rightarrow> rat) \<Rightarrow> string \<Rightarrow> int" where
  "estimate_tokens_v1 rnd text = py_int (rnd (rnd (of_nat (length text)) * (1 / 2)))"

definition KOREAN_CHAR_TO_TOKEN_RATIO :: rat where
  "KOREAN_CHAR_TO_TOKEN_RATIO = 2"

definition estimate_tokens_v2 :: "(rat \<Rightarrow> rat) \<Rightarrow> string \<Rightarrow> int" where
  "estimate_tokens_v2 rnd text =
     (let char_count = length text
      in py_int (rnd (rnd (of_nat char_count) / KOREAN_CHAR_TO_TOKEN_RATIO)))"

subsection \<open>normalize\_url\<close>

text \<open>
  A Python \<^verbatim>\<open>str\<close> is a list of code points; \<^typ>\<open>char\<close> covers the code points below
  256. \<^verbatim>\<open>str.strip()\<close> removes the white space of \<^verbatim>\<open>str.isspace\<close> at both ends and
  \<^verbatim>\<open>str.lower()\<close> maps the upper-case letters of that range to lower case.
\<close>

definition isspace :: "char \<Rightarrow> bool" where
  "isspace c = ((of_char c :: nat) \<in> {9, 10, 11, 12, 13, 28, 29, 30, 31, 32, 133, 160})"

definition strip :: "string \<Rightarrow> string" where
  "strip s = rev (dropWhile isspace (rev (dropWhile isspace s)))"

definition lower_char :: "char \<Rightarrow> char" where
  "lower_char c =
     (let n = (of_char c :: nat)
      in if (65 \<le> n \<and> n \<le> 90) \<or> (192 \<le> n \<and> n \<le> 222 \<and> n \<noteq> 215) then char_of (n + 32)
         else c)"

definition lower :: "string \<Rightarrow> string" where
  "lower s = map lower_char s"

definition newline :: char where
  "newline = CHR 0x0A"

text \<open>
  \<^verbatim>\<open>re.sub(r'C.*$', '', s)\<close> for a character class \<open>C\<close>. The engine tries each position
  from the left. At a character of the class, the greedy \<^verbatim>\<open>.*\<close> runs to the next newline
  or to the end (\<^verbatim>\<open>.\<close> matches no newline), and \<^verbatim>\<open>$\<close> holds only at the end of the string
  or before a newline that is its last character; giving characters back cannot help, so
  the match at that position succeeds exactly when \<open>dotstar_dollar\<close> holds of the rest.
  A match is deleted and what follows it (nothing, or the final newline) is kept.
\<close>

definition dotstar_dollar :: "string \<Rightarrow> bool" where
  "dotstar_dollar cs = (dropWhile (\<lambda>c. c \<noteq> newline) cs \<in> {[], [newline]})"

fun re_sub_to_end :: "(char \<Rightarrow> bool) \<Rightarrow> string \<Rightarrow> string" where
  "re_sub_to_end C [] = []"
| "re_sub_to_end C (c # cs) =
     (if C c \<and> dotstar_dollar cs then dropWhile (\<lambda>c. c \<noteq> newline) cs
      else c # re_sub_to_end C cs)"

definition normalize_url_v1 :: "string \<Rightarrow> string" where
  "normalize_url_v1 url =
     (let url = strip url
      in re_sub_to_end (\<lambda>c. c = CHR ''?'' \<or> c = CHR ''#'') url)"

definition normalize_url_v2 :: "string \<Rightarrow> string" where
  "normalize_url_v2 url =
     (let url = strip (lower url);
          url = re_sub_to_end (\<lambda>c. c = CHR ''?'') url
      in re_sub_to_end (\<lambda>c. c = CHR ''#'') url)"

definition no_query_no_fragment :: "string \<Rightarrow> bool" where
  "no_query_no_fragment url = (CHR ''?'' \<notin> set url \<and> CHR ''#'' \<notin> set url)"

subsection \<open>SimHash and the dedup step of batch\_process\_pipeline (draft v2)\<close>

text \<open>
  \<^verbatim>\<open>re.findall(r'\w+', text.lower())\<close> and
  \<^verbatim>\<open>int(hashlib.md5(token.encode()).hexdigest(), 16)\<close> are the parameters \<open>tokenize\<close> and
  \<open>md5_int\<close>. Python integers are unbounded: fingerprints are \<^typ>\<open>int\<close>.
\<close>

definition count_token :: "int \<Rightarrow> int list \<Rightarrow> int list" where
  "count_token h hash_vec =
     map (\<lambda>(i, v). if h AND push_bit i 1 \<noteq> 0 then v + 1 else v - 1)
       (zip [0..<length hash_vec] hash_vec)"

definition calculate_simhash ::
  "(string \<Rightarrow> string list) \<Rightarrow> (string \<Rightarrow> int) \<Rightarrow> string \<Rightarrow> nat \<Rightarrow> int" where
  "calculate_simhash tokenize md5_int text bit_length =
     (let tokens = tokenize text;
          hash_vec = foldl (\<lambda>vec token. count_token (md5_int token) vec)
                       (replicate bit_length 0) tokens
      in foldl (\<lambda>fingerprint i. if hash_vec ! i > 0 then fingerprint OR push_bit i 1
                                 else fingerprint)
           0 [0..<bit_length])"

text \<open>
  \<^verbatim>\<open>hamming_distance\<close>: the loop \<^verbatim>\<open>while xor: distance += 1; xor &= xor - 1\<close>. On a negative
  \<^verbatim>\<open>xor\<close> it never ends, so the loop is a partial function and not returning is \<open>None\<close>.
\<close>

partial_function (option) hamming_loop :: "int \<Rightarrow> int \<Rightarrow> int option" where
  "hamming_loop x distance =
     (if x \<noteq> 0 then hamming_loop (x AND (x - 1)) (distance + 1) else Some distance)"

declare hamming_loop.simps [code]

definition hamming_distance :: "int \<Rightarrow> int \<Rightarrow> int option" where
  "hamming_distance hash1 hash2 = hamming_loop (hash1 XOR hash2) 0"

text \<open>The claim's words: the number of bit positions in which the two hashes differ.\<close>

definition differing_bits :: "int \<Rightarrow> int \<Rightarrow> nat" where
  "differing_bits h1 h2 = card {i. bit h1 i \<noteq> bit h2 i}"

text \<open>The claim's words: the popcount, the number of one bits of a non-negative integer.\<close>

function popcount :: "int \<Rightarrow> nat" where
  "popcount x = (if x \<le> 0 then 0 else nat (x mod 2) + popcount (x div 2))"
  by pat_completeness auto
termination
  by (relation "measure nat") auto

declare popcount.simps [simp del]

text \<open>
  An article as \<^verbatim>\<open>fetch_rss_articles\<close> returns it, and the same dict once the dedup step
  has overwritten \<^verbatim>\<open>url\<close> and added \<^verbatim>\<open>simhash\<close>.
\<close>

record RawArticle =
  source :: string
  url :: string
  title :: string
  published_at :: datetime
  raw_content :: string

record Article = RawArticle +
  simhash :: int

definition fingerprinted ::
  "(string \<Rightarrow> string list) \<Rightarrow> (string \<Rightarrow> int) \<Rightarrow> RawArticle \<Rightarrow> Article" where
  "fingerprinted tokenize md5_int article =
     \<lparr>source = source article, url = normalize_url_v2 (url article), title = title article,
      published_at = published_at article, raw_content = raw_content article,
      simhash = calculate_simhash tokenize md5_int (title article @ raw_content article) 64\<rparr>"

text \<open>
  The inner loop over \<^verbatim>\<open>seen_hashes\<close> with its \<^verbatim>\<open>break\<close>. \<^verbatim>\<open>seen_hashes\<close> is a Python set,
  kept here as a duplicate-free list; the outcome does not depend on the order in which
  the set is visited once every comparison returns.
\<close>

fun is_duplicate :: "int \<Rightarrow> int list \<Rightarrow> bool option" where
  "is_duplicate h [] = Some False"
| "is_duplicate h (seen_hash # rest) =
     (case hamming_distance h seen_hash of
        None \<Rightarrow> None
      | Some d \<Rightarrow> if d < 3 then Some True else is_duplicate h rest)"

fun dedup_loop ::
  "(string \<Rightarrow> string list) \<Rightarrow> (string \<Rightarrow> int) \<Rightarrow> RawArticle list \<Rightarrow> int list \<Rightarrow> Article list
     \<Rightarrow> (int list \<times> Article list) option" where
  "dedup_loop tokenize md5_int [] seen_hashes normalized_articles =
     Some (seen_hashes, normalized_articles)"
| "dedup_loop tokenize md5_int (raw # raw_articles) seen_hashes normalized_articles =
     (let article = fingerprinted tokenize md5_int raw
      in case is_duplicate (simhash article) seen_hashes of
           None \<Rightarrow> None
         | Some dup \<Rightarrow>
             if \<not> dup then
               dedup_loop tokenize md5_int raw_articles
                 (List.insert (simhash article) seen_hashes) (normalized_articles @ [article])
             else dedup_loop tokenize md5_int raw_articles seen_hashes normalized_articles)"

definition dedup ::
  "(string \<Rightarrow> string list) \<Rightarrow> (string \<Rightarrow> int) \<Rightarrow> RawArticle list \<Rightarrow> Article list option" where
  "dedup tokenize md5_int raw_articles =
     map_option snd (dedup_loop tokenize md5_int raw_articles [] [])"

text \<open>
  What the loop maintains: \<^verbatim>\<open>seen_hashes\<close> holds exactly the fingerprints of the articles
  kept so far, none of them negative.
\<close>

definition seen_invariant :: "int list \<Rightarrow> Article list \<Rightarrow> bool" where
  "seen_invariant seen arts = (set seen = simhash ` set arts \<and> (\<forall>s\<in>set seen. 0 \<le> s))"

text \<open>Stand-ins for the tokenizer and the digest, used by the closed examples.\<close>

definition toy_tokenize :: "string \<Rightarrow> string list" where
  "toy_tokenize text = [take 4 text]"

definition toy_md5 :: "string \<Rightarrow> int" where
  "toy_md5 token = (if token = ''rate'' then 7 else 8)"

definition raw_titled :: "string \<Rightarrow> RawArticle" where
  "raw_titled t = \<lparr>source = ''mk'', url = ''https://example.com/A?x=1'', title = t,
     published_at = 0, raw_content = '' body''\<rparr>"

section \<open>Facts about tables\<close>

lemma find_holds: "find P xs = Some x \<Longrightarrow> P x"
  by (induction xs) (auto split: if_splits)

lemma find_commit_row: "find P xs = Some x \<Longrightarrow> P r \<Longrightarrow> find P (commit_row P r xs) = Some r"
  by (induction xs) (auto split: if_splits)

lemma length_commit_row: "length (commit_row P r xs) = length xs"
  by (induction xs) auto

lemma get_task_id: "get_task tid db = Some t \<Longrightarrow> task_id t = tid"
  unfolding get_task_def by (drule find_holds) simp

lemma find_unique_key:
  "distinct (map f xs) \<Longrightarrow> x \<in> set xs \<Longrightarrow> find (\<lambda>y. f y = f x) xs = Some x"
  by (induction xs) (auto simp: image_iff)

lemma find_in_set: "find P xs = Some x \<Longrightarrow> x \<in> set xs"
  by (induction xs) (auto split: if_splits)

lemma find_None_iff_no: "find P xs = None \<longleftrightarrow> (\<forall>x\<in>set xs. \<not> P x)"
  by (induction xs) auto

lemma commit_row_removes:
  "distinct (map f xs) \<Longrightarrow> find P xs = Some x \<Longrightarrow> f r = f x \<Longrightarrow> y \<in> set (commit_row P r xs)
     \<Longrightarrow> f y = f x \<Longrightarrow> y = r"
proof (induction xs)
  case Nil
  then show ?case by simp
next
  case (Cons a xs)
  show ?case
  proof (cases "P a")
    case True
    then have ax: "a = x" using Cons.prems(2) by simp
    then have "f x \<notin> f ` set xs" using Cons.prems(1) by simp
    then show ?thesis using Cons.prems(4,5) True by (auto simp: image_iff)
  next
    case False
    then have fx: "find P xs = Some x" using Cons.prems(2) by simp
    then have "x \<in> set xs" by (rule find_in_set)
    then have "f a \<noteq> f x" using Cons.prems(1) by (auto simp: image_iff)
    then show ?thesis using Cons.IH [OF _ fx Cons.prems(3)] Cons.prems(1,4,5) False by auto
  qed
qed

lemma find_commit_row_weaker:
  "find P xs = Some x \<Longrightarrow> Q r \<Longrightarrow> \<forall>y\<in>set xs. Q y \<longrightarrow> y = x
     \<Longrightarrow> find Q (commit_row P r xs) = Some r"
proof (induction xs)
  case Nil
  then show ?case by simp
next
  case (Cons a xs)
  show ?case
  proof (cases "P a")
    case True
    then show ?thesis using Cons.prems(2) by simp
  next
    case False
    then have fx: "find P xs = Some x" using Cons.prems(1) by simp
    have "P x" using fx by (rule find_holds)
    then have "a \<noteq> x" using False by auto
    then have nq: "\<not> Q a" using Cons.prems(3) by auto
    have "\<forall>y\<in>set xs. Q y \<longrightarrow> y = x" using Cons.prems(3) by simp
    then have "find Q (commit_row P r xs) = Some r" using fx Cons.prems(2) by (intro Cons.IH)
    then show ?thesis using False nq by simp
  qed
qed

lemma split_no_sep: "sep \<notin> set s \<Longrightarrow> split sep s = [s]"
  by (induction s) auto

lemma split_at_first: "sep \<notin> set a \<Longrightarrow> split sep (a @ sep # b) = a # split sep b"
  by (induction a) auto

lemma hexdigit_in: "n < 16 \<Longrightarrow> hexdigits ! n \<in> set hexdigits"
proof -
  assume "n < 16"
  then have "n < length hexdigits" by (simp add: hexdigits_def)
  then show ?thesis by (rule nth_mem)
qed

lemma hex_byte_digits: "set (hex_byte b) \<subseteq> set hexdigits"
proof -
  have "unat b < 256" using unsigned_less [of b] by simp
  then have "unat b div 16 < 16" by simp
  moreover have "unat b mod 16 < 16" by simp
  ultimately show ?thesis unfolding hex_byte_def using hexdigit_in by simp
qed

lemma hex_digits: "set (hex bs) \<subseteq> set hexdigits"
  unfolding hex_def using hex_byte_digits by auto

lemma dollar_not_hex: "CHR ''$'' \<notin> set hexdigits"
  by (simp add: hexdigits_def)

section \<open>Agent-task transitions\<close>

lemma commit_task_refused: "status task = Member m \<Longrightarrow> commit_task tid task db = Inl StatementError"
  by (simp add: commit_task_def storable_def)

lemma start_stored_rejected:
  "get_task tid db = Some t \<Longrightarrow> status t = Column st \<Longrightarrow>
     start_agent_task tid db
       = (Inl (HTTPException 400 (''Task is already '' @ column_status_value st)), db)"
  by (simp add: start_agent_task_def)

lemma complete_raises:
  "get_task tid db = Some t \<Longrightarrow> complete_agent_task tid out dur db = (Inl StatementError, db)"
  by (simp add: complete_agent_task_def Let_def commit_task_refused)

lemma status_fail_assignments: "status (fail_assignments reason d t) = Member FAILED"
  by (simp add: fail_assignments_def Let_def)

lemma fail_raises:
  "get_task tid db = Some t \<Longrightarrow> fail_agent_task tid reason d db = (Inl StatementError, db)"
  by (simp add: fail_agent_task_def Let_def commit_task_refused [OF status_fail_assignments])

text \<open>
  C1: for every stored task whose status is terminal, none of the transition operations
  changes the table. Start is rejected with 400 naming the status; complete and fail assign
  a member of the router's class and raise at the commit; after each of them the task is
  stored as it was.
\<close>

theorem terminal_states_absorbing:
  assumes "get_task tid db = Some t" and "status t = Column st" and "is_terminal (same_name st)"
  shows "start_agent_task tid db
           = (Inl (HTTPException 400 (''Task is already '' @ column_status_value st)), db)
       \<and> complete_agent_task tid out dur db = (Inl StatementError, db)
       \<and> fail_agent_task tid reason d db = (Inl StatementError, db)
       \<and> get_task tid (snd (start_agent_task tid db)) = Some t
       \<and> get_task tid (snd (complete_agent_task tid out dur db)) = Some t
       \<and> get_task tid (snd (fail_agent_task tid reason d db)) = Some t"
  using assms(1) start_stored_rejected [OF assms(1,2)] complete_raises [OF assms(1)]
    fail_raises [OF assms(1)]
  by simp

theorem terminal_states_absorbing_witness:
  "get_task 7 [task7 COL_FAILED] = Some (task7 COL_FAILED)
   \<and> status (task7 COL_FAILED) = Column COL_FAILED \<and> is_terminal (same_name COL_FAILED)
   \<and> start_agent_task 7 [task7 COL_FAILED]
       = (Inl (HTTPException 400 ''Task is already failed''), [task7 COL_FAILED])
   \<and> complete_agent_task 7 JNull 5 [task7 COL_FAILED] = (Inl StatementError, [task7 COL_FAILED])
   \<and> fail_agent_task 7 ''boom'' None [task7 COL_FAILED] = (Inl StatementError, [task7 COL_FAILED])"
proof -
  have g: "get_task 7 [task7 COL_FAILED] = Some (task7 COL_FAILED)"
    by (simp add: get_task_def task7_def)
  have s: "status (task7 COL_FAILED) = Column COL_FAILED" by (simp add: task7_def)
  have t: "is_terminal (same_name COL_FAILED)" by (simp add: is_terminal_def)
  show ?thesis
    using g s t terminal_states_absorbing [OF g s t, of JNull 5 "''boom''" None] by simp
qed

text \<open>
  C3 at a stored pending task: the loaded status is a member of the column's class and so
  differs from the router's PENDING; start raises 400 "Task is already pending" and
  the task stays pending, where the claim has it set to \<open>in_progress\<close> and returned.
\<close>

theorem start_pending_task_rejected:
  "get_task 7 [task7 COL_PENDING] = Some (task7 COL_PENDING)
   \<and> attr_value (status (task7 COL_PENDING)) = Inr ''pending''
   \<and> start_agent_task 7 [task7 COL_PENDING]
       = (Inl (HTTPException 400 ''Task is already pending''), [task7 COL_PENDING])"
  by (simp add: get_task_def task7_def start_agent_task_def)

text \<open>
  C10 at a stored task in progress: the row object keeps its duration when
  \<open>duration_ms\<close> is 0 and takes 15 when it is 15, as the claim says; but fail has assigned
  the router's FAILED, the commit raises for either duration, and neither the status, the
  error reason nor the duration reaches the table.
\<close>

theorem fail_agent_task_stores_nothing:
  "get_task 7 [task7 COL_IN_PROGRESS] = Some (task7 COL_IN_PROGRESS)
   \<and> duration_ms (fail_assignments ''timeout'' (Some 0) (task7 COL_IN_PROGRESS)) = Some 40
   \<and> duration_ms (fail_assignments ''timeout'' (Some 15) (task7 COL_IN_PROGRESS)) = Some 15
   \<and> fail_agent_task 7 ''timeout'' (Some 0) [task7 COL_IN_PROGRESS]
       = (Inl StatementError, [task7 COL_IN_PROGRESS])
   \<and> fail_agent_task 7 ''timeout'' (Some 15) [task7 COL_IN_PROGRESS]
       = (Inl StatementError, [task7 COL_IN_PROGRESS])"
  by (simp add: get_task_def task7_def fail_agent_task_def fail_assignments_def truthy_def
      commit_task_def storable_def Let_def)

section \<open>Sessions\<close>

text \<open>
  C4: in a table whose tokens are unique (the column's constraint), get-by-token for the
  token of a stored session whose expiry is strictly before the current time yields
  401 "Session expired"; and refreshing a stored session at time \<open>T\<close> returns and stores it
  with expiry exactly \<open>T\<close> plus 24 hours, whatever its expiry was.
\<close>

theorem session_expiry_and_refresh:
  "(distinct (map session_token db) \<and> s \<in> set db \<and> expires_at s < now \<longrightarrow>
      get_session_by_token now (session_token s) db = Inl (HTTPException 401 ''Session expired''))
   \<and> (find (\<lambda>r. session_id r = sid) db = Some s \<longrightarrow>
        fst (refresh_session T sid db) = Inr (s\<lparr>expires_at := T + 24 * 3600 * 1000000\<rparr>)
      \<and> find (\<lambda>r. session_id r = sid) (snd (refresh_session T sid db))
          = Some (s\<lparr>expires_at := T + 24 * 3600 * 1000000\<rparr>))"
proof (intro conjI impI)
  assume a: "distinct (map session_token db) \<and> s \<in> set db \<and> expires_at s < now"
  then have "find (\<lambda>y. session_token y = session_token s) db = Some s"
    by (intro find_unique_key) simp_all
  then show "get_session_by_token now (session_token s) db
      = Inl (HTTPException 401 ''Session expired'')"
    using a by (simp add: get_session_by_token_def)
next
  assume f: "find (\<lambda>r. session_id r = sid) db = Some s"
  then show "fst (refresh_session T sid db) = Inr (s\<lparr>expires_at := T + 24 * 3600 * 1000000\<rparr>)"
    by (simp add: refresh_session_def timedelta_hours_def Let_def)
next
  assume f: "find (\<lambda>r. session_id r = sid) db = Some s"
  have id: "session_id s = sid" using find_holds [OF f] .
  let ?r = "s\<lparr>expires_at := T + 24 * 3600 * 1000000\<rparr>"
  have "find (\<lambda>r. session_id r = sid) (commit_row (\<lambda>r. session_id r = sid) ?r db) = Some ?r"
    using f id by (intro find_commit_row) simp_all
  then show "find (\<lambda>r. session_id r = sid) (snd (refresh_session T sid db)) = Some ?r"
    using f by (simp add: refresh_session_def timedelta_hours_def Let_def)
qed

theorem session_expiry_and_refresh_witness:
  "distinct (map session_token [session3 4000000]) \<and> session3 4000000 \<in> set [session3 4000000]
   \<and> expires_at (session3 4000000) < 5000000
   \<and> get_session_by_token 5000000 ''tok-3'' [session3 4000000]
       = Inl (HTTPException 401 ''Session expired'')
   \<and> find (\<lambda>r. session_id r = 3) [session3 4000000] = Some (session3 4000000)
   \<and> map expires_at (snd (refresh_session 9000000 3 [session3 4000000])) = [9000000 + 86400000000]"
proof -
  have h: "distinct (map session_token [session3 4000000]) \<and> session3 4000000 \<in> set [session3 4000000]
     \<and> expires_at (session3 4000000) < 5000000"
    by (simp add: session3_def)
  have f: "find (\<lambda>r. session_id r = 3) [session3 4000000] = Some (session3 4000000)"
    by (simp add: session3_def)
  have t: "session_token (session3 4000000) = ''tok-3''" by (simp add: session3_def)
  have r: "map expires_at (snd (refresh_session 9000000 3 [session3 4000000])) = [9000000 + 86400000000]"
    by (simp add: refresh_session_def session3_def timedelta_hours_def Let_def)
  show ?thesis
    using h f t r session_expiry_and_refresh [of "[session3 4000000]" "session3 4000000" 5000000 3 9000000]
    by simp
qed

section \<open>Users\<close>

text \<open>
  C6: in a table whose user ids are unique (the primary key), after delete has stamped
  \<open>deleted_at\<close> of a live user, get-by-id for that id yields 404, no page of the list
  operation contains that id, and the table has as many rows as before: the lookup by id
  alone, the one activate uses, still finds the row, now with its deletion time and the
  \<open>updated_at\<close> of the flush.
\<close>

theorem soft_delete_exclusion:
  assumes pk: "distinct (map user_id db)" and live: "get_user uid db = Inr u"
  shows "fst (delete_user now flushed uid db) = Inr ()
       \<and> get_user uid (snd (delete_user now flushed uid db))
           = Inl (HTTPException 404 ''User not found'')
       \<and> uid \<notin> user_id ` set (get_users skip limit (snd (delete_user now flushed uid db)))
       \<and> length (snd (delete_user now flushed uid db)) = length db
       \<and> find (\<lambda>r. user_id r = uid) (snd (delete_user now flushed uid db))
           = Some (u\<lparr>deleted_at := Some now, updated_at := Some flushed\<rparr>)
       \<and> fst (activate_user later flushed' uid (snd (delete_user now flushed uid db)))
           = Inr (if last_active_at u = Some later
                  then u\<lparr>deleted_at := Some now, updated_at := Some flushed\<rparr>
                  else u\<lparr>deleted_at := Some now, last_active_at := Some later,
                         updated_at := Some flushed'\<rparr>)"
proof -
  let ?d = "u\<lparr>deleted_at := Some now, updated_at := Some flushed\<rparr>"
  let ?db = "commit_row (live_with_id uid) ?d db"
  have f: "find (live_with_id uid) db = Some u"
    using live by (simp add: get_user_def split: option.splits)
  have lu: "live_with_id uid u" using f by (rule find_holds)
  then have id: "user_id u = uid" by (simp add: live_with_id_def)
  have mem: "u \<in> set db" using f by (rule find_in_set)
  have del: "delete_user now flushed uid db = (Inr (), ?db)"
    using f by (simp add: delete_user_def)
  have only: "y = ?d" if "y \<in> set ?db" "user_id y = uid" for y
    using commit_row_removes [OF pk f, of ?d y] that id by simp
  have gone: "find (live_with_id uid) ?db = None"
    unfolding find_None_iff_no
  proof
    fix y assume y: "y \<in> set ?db"
    show "\<not> live_with_id uid y"
    proof
      assume "live_with_id uid y"
      then have "user_id y = uid" "deleted_at y = None" by (simp_all add: live_with_id_def)
      then show False using only [OF y] by auto
    qed
  qed
  have listed: "uid \<notin> user_id ` set (get_users skip limit ?db)"
  proof
    assume "uid \<in> user_id ` set (get_users skip limit ?db)"
    then obtain y where y: "y \<in> set (get_users skip limit ?db)" "user_id y = uid" by auto
    have "y \<in> set (filter (\<lambda>r. deleted_at r = None) ?db)"
      using y(1) unfolding get_users_def by (meson in_set_dropD in_set_takeD)
    then have "y \<in> set ?db" "deleted_at y = None" by simp_all
    then show False using only [of y] y(2) by auto
  qed
  have uniq: "y = u" if "user_id y = uid" "y \<in> set db" for y
  proof -
    have "find (\<lambda>r. user_id r = user_id y) db = Some y"
      using pk that(2) by (rule find_unique_key)
    moreover have "find (\<lambda>r. user_id r = user_id u) db = Some u"
      using pk mem by (rule find_unique_key)
    ultimately show ?thesis using that(1) id by simp
  qed
  have row: "find (\<lambda>r. user_id r = uid) ?db = Some ?d"
    using f uniq by (intro find_commit_row_weaker [where x = u]) (simp_all add: id)
  have act: "fst (activate_user later flushed' uid ?db)
      = Inr (if last_active_at u = Some later then ?d
             else u\<lparr>deleted_at := Some now, last_active_at := Some later,
                    updated_at := Some flushed'\<rparr>)"
    using row by (simp add: activate_user_def Let_def)
  show ?thesis
    using del gone listed row act by (simp add: get_user_def length_commit_row)
qed

theorem soft_delete_exclusion_witness:
  "distinct (map user_id [user_named ''a'', user_named ''b''])
   \<and> get_user ''b'' [user_named ''a'', user_named ''b''] = Inr (user_named ''b'')
   \<and> get_user ''b'' (snd (delete_user 50 51 ''b'' [user_named ''a'', user_named ''b'']))
       = Inl (HTTPException 404 ''User not found'')
   \<and> map user_id (get_users 0 100 (snd (delete_user 50 51 ''b'' [user_named ''a'', user_named ''b''])))
       = [''a'']
   \<and> map deleted_at (snd (delete_user 50 51 ''b'' [user_named ''a'', user_named ''b'']))
       = [None, Some 50]
   \<and> map updated_at (snd (delete_user 50 51 ''b'' [user_named ''a'', user_named ''b'']))
       = [Some 0, Some 51]
   \<and> fst (activate_user 60 61 ''b'' (snd (delete_user 50 51 ''b'' [user_named ''a'', user_named ''b''])))
       = Inr ((user_named ''b'')\<lparr>deleted_at := Some 50, last_active_at := Some 60,
                                 updated_at := Some 61\<rparr>)"
proof -
  have pk: "distinct (map user_id [user_named ''a'', user_named ''b''])"
    by (simp add: user_named_def)
  have live: "get_user ''b'' [user_named ''a'', user_named ''b''] = Inr (user_named ''b'')"
    by (simp add: get_user_def live_with_id_def user_named_def)
  have l: "map user_id (get_users 0 100 (snd (delete_user 50 51 ''b'' [user_named ''a'', user_named ''b''])))
       = [''a'']"
    by (simp add: get_users_def delete_user_def live_with_id_def user_named_def)
  have d: "map deleted_at (snd (delete_user 50 51 ''b'' [user_named ''a'', user_named ''b'']))
       = [None, Some 50]"
    "map updated_at (snd (delete_user 50 51 ''b'' [user_named ''a'', user_named ''b'']))
       = [Some 0, Some 51]"
    by (simp_all add: delete_user_def live_with_id_def user_named_def)
  have a: "last_active_at (user_named ''b'') \<noteq> Some 60" by (simp add: user_named_def)
  show ?thesis
    using pk live l d a soft_delete_exclusion [OF pk live, of 50 51 0 100 60 61] by simp
qed

section \<open>Passwords\<close>

text \<open>
  C2: for every password, every key-derivation and encoding function, and every salt
  that is 32 lower-case hexadecimal digits (the values of \<^verbatim>\<open>token_hex(16)\<close>), verifying
  the password against its own hash returns true.
\<close>

theorem password_round_trip:
  assumes "is_token_hex 16 salt"
  shows "verify_password kdf enc p (hash_password kdf enc salt p)"
proof -
  have "set salt \<subseteq> set hexdigits"
    using assms by (auto simp: is_token_hex_def list_all_iff)
  then have s: "CHR ''$'' \<notin> set salt" using dollar_not_hex by auto
  have h: "CHR ''$'' \<notin> set (hex (kdf (enc p) (enc salt)))"
    using hex_digits dollar_not_hex by blast
  have "split (CHR ''$'') (salt @ CHR ''$'' # hex (kdf (enc p) (enc salt)))
      = [salt, hex (kdf (enc p) (enc salt))]"
    using s h by (simp add: split_at_first split_no_sep)
  then show ?thesis
    by (simp add: verify_password_def hash_password_def)
qed

theorem password_round_trip_witness:
  "is_token_hex 16 ''00112233445566778899aabbccddeeff''
   \<and> hash_password toy_kdf toy_enc ''00112233445566778899aabbccddeeff'' ''pw''
       = ''00112233445566778899aabbccddeeff$71783131''
   \<and> verify_password toy_kdf toy_enc ''pw'' ''00112233445566778899aabbccddeeff$71783131''"
proof -
  have t: "is_token_hex 16 ''00112233445566778899aabbccddeeff''"
    by (simp add: is_token_hex_def hexdigits_def)
  have h: "hash_password toy_kdf toy_enc ''00112233445566778899aabbccddeeff'' ''pw''
       = ''00112233445566778899aabbccddeeff$71783131''"
    by (simp add: hash_password_def toy_kdf_def toy_enc_def hex_def hex_byte_def hexdigits_def)
  show ?thesis
    using t h password_round_trip [OF t, of toy_kdf toy_enc "''pw''"] by simp
qed

section \<open>Token estimators\<close>

text \<open>
  C5: for every text and every rounding of floating-point results, the estimators of
  draft v1 and draft v2 return the same value; for a text of 1000 characters, 1000 and 500
  being doubles, both return 500.
\<close>

theorem token_estimators_agree:
  "estimate_tokens_v1 rnd text = estimate_tokens_v2 rnd text
   \<and> (length text = 1000 \<and> rnd 1000 = 1000 \<and> rnd 500 = 500 \<longrightarrow>
        estimate_tokens_v1 rnd text = 500 \<and> estimate_tokens_v2 rnd text = 500)"
  by (simp add: estimate_tokens_v1_def estimate_tokens_v2_def KOREAN_CHAR_TO_TOKEN_RATIO_def
      py_int_def Let_def)

theorem token_estimators_agree_witness:
  "length (replicate 1000 (CHR ''a'')) = 1000 \<and> (\<lambda>x::rat. x) 1000 = 1000 \<and> (\<lambda>x::rat. x) 500 = 500
   \<and> estimate_tokens_v1 (\<lambda>x. x) (replicate 1000 (CHR ''a'')) = 500
   \<and> estimate_tokens_v2 (\<lambda>x. x) (replicate 1000 (CHR ''a'')) = 500"
  using token_estimators_agree [of "\<lambda>x. x" "replicate 1000 (CHR ''a'')"] by simp

section \<open>URL normalization\<close>

lemma re_sub_to_end_no_class: "\<forall>c\<in>set s. \<not> C c \<Longrightarrow> re_sub_to_end C s = s"
  by (induction s) auto

lemma re_sub_to_end_one_line:
  "newline \<notin> set s \<Longrightarrow> re_sub_to_end C s = takeWhile (\<lambda>c. \<not> C c) s"
  by (induction s) (auto simp: dotstar_dollar_def)

lemma set_strip: "set (strip s) \<subseteq> set s"
proof
  fix c assume "c \<in> set (strip s)"
  then have "c \<in> set (dropWhile isspace (rev (dropWhile isspace s)))"
    by (simp add: strip_def)
  then have "c \<in> set (rev (dropWhile isspace s))" by (rule set_dropWhileD)
  then have "c \<in> set (dropWhile isspace s)" by simp
  then show "c \<in> set s" by (rule set_dropWhileD)
qed

lemma lower_char_newline: "lower_char c = newline \<Longrightarrow> c = newline"
proof -
  assume a: "lower_char c = newline"
  let ?n = "of_char c :: nat"
  show ?thesis
  proof (cases "(65 \<le> ?n \<and> ?n \<le> 90) \<or> (192 \<le> ?n \<and> ?n \<le> 222 \<and> ?n \<noteq> 215)")
    case True
    then have "lower_char c = char_of (?n + 32)" by (simp add: lower_char_def Let_def)
    then have "(of_char (lower_char c) :: nat) = (?n + 32) mod 256" by simp
    moreover have "(of_char newline :: nat) = 10" by (simp add: newline_def)
    ultimately have m: "(?n + 32) mod 256 = 10" using a by simp
    have "?n + 32 < 256" using True by linarith
    then have "(?n + 32) mod 256 = ?n + 32" by (rule mod_less)
    then show ?thesis using m True by linarith
  next
    case False
    then have "lower_char c = c" unfolding lower_char_def Let_def by (rule if_not_P)
    then show ?thesis using a by simp
  qed
qed

lemma newline_lower: "newline \<notin> set s \<Longrightarrow> newline \<notin> set (lower s)"
proof
  assume n: "newline \<notin> set s" and "newline \<in> set (lower s)"
  then obtain c where c: "c \<in> set s" "lower_char c = newline" by (auto simp: lower_def)
  then show False using n lower_char_newline by blast
qed

lemma takeWhile_no_member: "\<forall>c\<in>set (takeWhile P s). P c"
  by (auto dest: set_takeWhileD)

text \<open>
  C8, as stated, fails. A URL with no query string and no fragment is changed by draft v2
  when it has an upper-case letter and by draft v1 when it starts with white space; and
  with a newline after the \<open>?\<close>, the query string stays in both drafts.
\<close>

theorem normalize_url_counterexample:
  "no_query_no_fragment ''HTTP://A.com'' \<and> normalize_url_v2 ''HTTP://A.com'' = ''http://a.com''
   \<and> no_query_no_fragment '' http://a.com'' \<and> normalize_url_v1 '' http://a.com'' = ''http://a.com''
   \<and> normalize_url_v1 (''a?b'' @ [newline] @ ''c#d'') = ''a?b'' @ [newline] @ ''c''
   \<and> normalize_url_v2 (''a?b'' @ [newline] @ ''c#d'') = ''a?b'' @ [newline] @ ''c''"
  by (simp add: no_query_no_fragment_def normalize_url_v2_def normalize_url_v1_def strip_def
      lower_def lower_char_def isspace_def dotstar_dollar_def newline_def char_of_eq_iff)

text \<open>
  C8, amended: a URL with no \<open>?\<close> and no \<open>#\<close> that \<^verbatim>\<open>strip\<close> leaves unchanged is returned
  unchanged by draft v1, and by draft v2 when \<^verbatim>\<open>lower\<close> leaves it unchanged too; and for
  every URL without a newline, both drafts return the stripped (v2: lower-cased and
  stripped) URL cut before its first \<open>?\<close> or \<open>#\<close>, a string with neither character.
\<close>

theorem normalize_url_amended:
  "(no_query_no_fragment u \<and> strip u = u \<longrightarrow> normalize_url_v1 u = u)
   \<and> (no_query_no_fragment u \<and> strip u = u \<and> lower u = u \<longrightarrow> normalize_url_v2 u = u)
   \<and> (newline \<notin> set u \<longrightarrow>
         normalize_url_v1 u = takeWhile (\<lambda>c. c \<noteq> CHR ''?'' \<and> c \<noteq> CHR ''#'') (strip u)
       \<and> normalize_url_v2 u = takeWhile (\<lambda>c. c \<noteq> CHR ''?'' \<and> c \<noteq> CHR ''#'') (strip (lower u))
       \<and> no_query_no_fragment (normalize_url_v1 u)
       \<and> no_query_no_fragment (normalize_url_v2 u))"
proof (intro conjI impI)
  assume a: "no_query_no_fragment u \<and> strip u = u"
  then have "\<forall>c\<in>set u. \<not> (c = CHR ''?'' \<or> c = CHR ''#'')"
    by (auto simp: no_query_no_fragment_def)
  then have "re_sub_to_end (\<lambda>c. c = CHR ''?'' \<or> c = CHR ''#'') u = u"
    by (rule re_sub_to_end_no_class)
  then show "normalize_url_v1 u = u" using a by (simp add: normalize_url_v1_def)
next
  assume a: "no_query_no_fragment u \<and> strip u = u \<and> lower u = u"
  then have q: "\<forall>c\<in>set u. \<not> c = CHR ''?''" and f: "\<forall>c\<in>set u. \<not> c = CHR ''#''"
    by (auto simp: no_query_no_fragment_def)
  have "re_sub_to_end (\<lambda>c. c = CHR ''?'') u = u" using q by (rule re_sub_to_end_no_class)
  moreover have "re_sub_to_end (\<lambda>c. c = CHR ''#'') u = u" using f by (rule re_sub_to_end_no_class)
  ultimately show "normalize_url_v2 u = u" using a by (simp add: normalize_url_v2_def)
next
  assume n: "newline \<notin> set u"
  then have "newline \<notin> set (strip u)" using set_strip by blast
  then show v1: "normalize_url_v1 u = takeWhile (\<lambda>c. c \<noteq> CHR ''?'' \<and> c \<noteq> CHR ''#'') (strip u)"
    by (simp add: normalize_url_v1_def re_sub_to_end_one_line)
  have "newline \<notin> set (lower u)" using n by (rule newline_lower)
  then have l: "newline \<notin> set (strip (lower u))" using set_strip by blast
  then have "newline \<notin> set (takeWhile (\<lambda>c. c \<noteq> CHR ''?'') (strip (lower u)))"
    by (auto dest: set_takeWhileD)
  then show v2: "normalize_url_v2 u
      = takeWhile (\<lambda>c. c \<noteq> CHR ''?'' \<and> c \<noteq> CHR ''#'') (strip (lower u))"
    using l by (simp add: normalize_url_v2_def re_sub_to_end_one_line takeWhile_takeWhile)
  show "no_query_no_fragment (normalize_url_v1 u)"
    unfolding v1 no_query_no_fragment_def
    using takeWhile_no_member [of "\<lambda>c. c \<noteq> CHR ''?'' \<and> c \<noteq> CHR ''#''" "strip u"] by blast
  show "no_query_no_fragment (normalize_url_v2 u)"
    unfolding v2 no_query_no_fragment_def
    using takeWhile_no_member [of "\<lambda>c. c \<noteq> CHR ''?'' \<and> c \<noteq> CHR ''#''" "strip (lower u)"] by blast
qed

theorem normalize_url_amended_witness:
  "no_query_no_fragment ''http://a.com/x'' \<and> strip ''http://a.com/x'' = ''http://a.com/x''
   \<and> lower ''http://a.com/x'' = ''http://a.com/x'' \<and> newline \<notin> set ''http://a.com/x''
   \<and> normalize_url_v1 ''http://a.com/x'' = ''http://a.com/x''
   \<and> normalize_url_v2 ''http://a.com/x'' = ''http://a.com/x''
   \<and> newline \<notin> set ''http://a.com/x?y=1#z''
   \<and> normalize_url_v1 ''http://a.com/x?y=1#z'' = ''http://a.com/x''
   \<and> normalize_url_v2 ''http://a.com/x?y=1#z'' = ''http://a.com/x''"
proof -
  have h: "no_query_no_fragment ''http://a.com/x''" "strip ''http://a.com/x'' = ''http://a.com/x''"
    "lower ''http://a.com/x'' = ''http://a.com/x''" "newline \<notin> set ''http://a.com/x''"
    "newline \<notin> set ''http://a.com/x?y=1#z''"
    by (simp_all add: no_query_no_fragment_def strip_def isspace_def lower_def lower_char_def
        newline_def)
  have s: "strip ''http://a.com/x?y=1#z'' = ''http://a.com/x?y=1#z''"
    "lower ''http://a.com/x?y=1#z'' = ''http://a.com/x?y=1#z''"
    by (simp_all add: strip_def isspace_def lower_def lower_char_def)
  show ?thesis
    using h s normalize_url_amended [of "''http://a.com/x''"]
      normalize_url_amended [of "''http://a.com/x?y=1#z''"]
    by simp
qed

section \<open>SimHash dedup (draft v2)\<close>

lemma popcount_0: "popcount 0 = 0"
  by (simp add: popcount.simps)

lemma popcount_double: "0 \<le> z \<Longrightarrow> popcount (2 * z) = popcount z"
  by (cases "z = 0") (simp_all add: popcount.simps [of "2 * z"] popcount_0)

lemma popcount_double_plus: "0 \<le> z \<Longrightarrow> popcount (2 * z + 1) = Suc (popcount z)"
  by (simp add: popcount.simps [of "2 * z + 1"])

lemma clear_lowest_bit:
  "0 < x \<Longrightarrow> 0 \<le> x AND (x - 1) \<and> x AND (x - 1) < x \<and> Suc (popcount (x AND (x - 1))) = popcount x"
proof (induction "nat x" arbitrary: x rule: less_induct)
  case less
  define y where "y = x div 2"
  show ?case
  proof (cases "even x")
    case True
    then have x: "x = 2 * y" by (auto simp: y_def)
    then have ypos: "0 < y" using less.prems by simp
    have "nat y < nat x" using ypos x by simp
    then have ih: "0 \<le> y AND (y - 1)" "y AND (y - 1) < y"
      "Suc (popcount (y AND (y - 1))) = popcount y"
      using less.hyps [of y] ypos by simp_all
    have d: "(x - 1) div 2 = y - 1" using x by simp
    have e: "x AND (x - 1) = 2 * (y AND (y - 1))"
      using True d by (subst and_int_rec) (simp add: y_def)
    show ?thesis
      using ih ypos unfolding e by (simp add: popcount_double x)
  next
    case False
    then have x: "x = 2 * y + 1" by (auto simp: y_def elim: oddE)
    then have ynn: "0 \<le> y" using less.prems by simp
    have d: "(x - 1) div 2 = y" using x by simp
    have e: "x AND (x - 1) = 2 * y"
      using False d by (subst and_int_rec) (simp add: y_def)
    show ?thesis
      using ynn unfolding e by (simp add: popcount_double popcount_double_plus x)
  qed
qed

lemma hamming_loop_popcount:
  "0 \<le> x \<Longrightarrow> hamming_loop x d = Some (d + int (popcount x))"
proof (induction "nat x" arbitrary: x d rule: less_induct)
  case less
  show ?case
  proof (cases "x = 0")
    case True
    then show ?thesis by (simp add: hamming_loop.simps popcount_0)
  next
    case False
    then have pos: "0 < x" using less.prems by simp
    note c = clear_lowest_bit [OF pos]
    have "nat (x AND (x - 1)) < nat x" using c pos by simp
    then have "hamming_loop (x AND (x - 1)) (d + 1)
        = Some (d + 1 + int (popcount (x AND (x - 1))))"
      using less.hyps c by simp
    moreover have "hamming_loop x d = hamming_loop (x AND (x - 1)) (d + 1)"
      using False by (subst hamming_loop.simps) simp
    moreover have "int (popcount x) = 1 + int (popcount (x AND (x - 1)))"
      using c by linarith
    ultimately show ?thesis by simp
  qed
qed

lemma bits_of_int: "{n. bit (x::int) n} = (if odd x then {0} else {}) \<union> Suc ` {n. bit (x div 2) n}"
proof (rule set_eqI)
  fix n
  show "n \<in> {n. bit x n} \<longleftrightarrow> n \<in> (if odd x then {0} else {}) \<union> Suc ` {n. bit (x div 2) n}"
    by (cases n) (auto simp: bit_0 bit_Suc)
qed

lemma popcount_card: "0 \<le> x \<Longrightarrow> finite {n. bit x n} \<and> card {n. bit x n} = popcount x"
proof (induction "nat x" arbitrary: x rule: less_induct)
  case less
  show ?case
  proof (cases "x = 0")
    case True
    have "{n. bit (0::int) n} = {}" by simp
    then show ?thesis using True by (simp only: popcount_0 finite.emptyI card.empty)
  next
    case False
    then have pos: "0 < x" using less.prems by simp
    then have "nat (x div 2) < nat x" "0 \<le> x div 2" by simp_all
    then have ih: "finite {n. bit (x div 2) n}" "card {n. bit (x div 2) n} = popcount (x div 2)"
      using less.hyps [of "x div 2"] by simp_all
    let ?S = "Suc ` {n. bit (x div 2) n}"
    have fs: "finite ?S" using ih(1) by simp
    have cs: "card ?S = popcount (x div 2)" using ih(2) by (simp add: card_image)
    have z: "0 \<notin> ?S" by auto
    have p: "popcount x = nat (x mod 2) + popcount (x div 2)"
      using pos by (simp add: popcount.simps [of x])
    show ?thesis
    proof (cases "odd x")
      case True
      then have "x mod 2 = 1" by (simp add: odd_iff_mod_2_eq_one)
      then show ?thesis using True fs cs z p by (simp add: bits_of_int [of x])
    next
      case False
      then have "x mod 2 = 0" by simp
      then show ?thesis using False fs cs p by (simp add: bits_of_int [of x])
    qed
  qed
qed

lemma hamming_distance_differing_bits:
  assumes "0 \<le> h1" "0 \<le> h2"
  shows "hamming_distance h1 h2 = Some (int (differing_bits h1 h2))"
    and "differing_bits h1 h2 = popcount (h1 XOR h2)"
proof -
  have nn: "0 \<le> h1 XOR h2" using assms by simp
  have "{i. bit h1 i \<noteq> bit h2 i} = {n. bit (h1 XOR h2) n}" by (simp add: bit_xor_iff)
  then show d: "differing_bits h1 h2 = popcount (h1 XOR h2)"
    using popcount_card [OF nn] by (simp add: differing_bits_def)
  show "hamming_distance h1 h2 = Some (int (differing_bits h1 h2))"
    unfolding d hamming_distance_def using hamming_loop_popcount [OF nn, of 0] by simp
qed

lemma fingerprint_fold_range:
  "0 \<le> acc \<Longrightarrow> acc < 2 ^ n \<Longrightarrow> \<forall>i\<in>set js. i < n \<Longrightarrow>
     0 \<le> foldl (\<lambda>fingerprint i. if P i then fingerprint OR push_bit i 1 else fingerprint) acc js
   \<and> foldl (\<lambda>fingerprint i. if P i then fingerprint OR push_bit i 1 else fingerprint) acc js
       < (2::int) ^ n"
proof (induction js arbitrary: acc)
  case Nil
  then show ?case by simp
next
  case (Cons j js)
  have jn: "j < n" using Cons.prems(3) by simp
  have b: "push_bit j (1::int) < 2 ^ n" using jn by (simp add: push_bit_eq_mult)
  have "0 \<le> acc OR push_bit j 1" using Cons.prems(1) by simp
  moreover have "acc OR push_bit j 1 < 2 ^ n" using Cons.prems(1,2) b by (rule OR_upper)
  ultimately show ?case using Cons.IH [of "acc OR push_bit j 1"] Cons.IH [of acc] Cons.prems
    by simp
qed

lemma calculate_simhash_range:
  "0 \<le> calculate_simhash tokenize md5_int text n
   \<and> calculate_simhash tokenize md5_int text n < 2 ^ n"
  unfolding calculate_simhash_def Let_def
  by (rule fingerprint_fold_range) simp_all

lemma simhash_fingerprinted_range:
  "0 \<le> simhash (fingerprinted tokenize md5_int raw)
   \<and> simhash (fingerprinted tokenize md5_int raw) < 2 ^ 64"
  using calculate_simhash_range [of tokenize md5_int _ 64] by (simp add: fingerprinted_def)

lemma is_duplicate_total:
  "0 \<le> h \<Longrightarrow> \<forall>s\<in>set seen. 0 \<le> s \<Longrightarrow>
     is_duplicate h seen = Some (\<exists>s\<in>set seen. differing_bits h s < 3)"
proof (induction seen)
  case Nil
  then show ?case by simp
next
  case (Cons s seen)
  have "hamming_distance h s = Some (int (differing_bits h s))"
    using Cons.prems by (intro hamming_distance_differing_bits) simp_all
  then show ?case using Cons by simp
qed

lemma dedup_loop_append:
  "dedup_loop tokenize md5_int (xs @ ys) seen arts =
     (case dedup_loop tokenize md5_int xs seen arts of
        None \<Rightarrow> None
      | Some (seen', arts') \<Rightarrow> dedup_loop tokenize md5_int ys seen' arts')"
  by (induction xs arbitrary: seen arts) (simp_all add: Let_def split: option.splits)

lemma dedup_loop_total:
  "seen_invariant seen arts \<Longrightarrow>
     \<exists>seen' arts'. dedup_loop tokenize md5_int xs seen arts = Some (seen', arts')
        \<and> seen_invariant seen' arts'"
proof (induction xs arbitrary: seen arts)
  case Nil
  then show ?case by simp
next
  case (Cons raw xs)
  let ?a = "fingerprinted tokenize md5_int raw"
  have nn: "0 \<le> simhash ?a" using simhash_fingerprinted_range by blast
  have dup: "is_duplicate (simhash ?a) seen = Some (\<exists>s\<in>set seen. differing_bits (simhash ?a) s < 3)"
    using nn Cons.prems by (intro is_duplicate_total) (simp_all add: seen_invariant_def)
  show ?case
  proof (cases "\<exists>s\<in>set seen. differing_bits (simhash ?a) s < 3")
    case True
    then show ?thesis using dup Cons.IH [OF Cons.prems] by (simp add: Let_def)
  next
    case False
    have "seen_invariant (List.insert (simhash ?a) seen) (arts @ [?a])"
      using Cons.prems nn by (auto simp: seen_invariant_def)
    then show ?thesis using dup False Cons.IH by (simp add: Let_def)
  qed
qed

text \<open>
  C7: for non-negative hashes (every fingerprint is one, below \<open>2^64\<close>),
  \<^verbatim>\<open>hamming_distance\<close> returns the number of bit positions in which they differ, the
  popcount of their XOR; and the dedup step returns for every batch: a further article is
  appended to the kept ones exactly when its fingerprint differs in at least 3 bits from
  the fingerprint of every article kept before it, and is dropped otherwise.
\<close>

theorem simhash_dedup_rule:
  "(0 \<le> h1 \<and> 0 \<le> h2 \<longrightarrow>
      hamming_distance h1 h2 = Some (int (differing_bits h1 h2))
    \<and> differing_bits h1 h2 = popcount (h1 XOR h2))
   \<and> 0 \<le> simhash (fingerprinted tokenize md5_int raw)
   \<and> simhash (fingerprinted tokenize md5_int raw) < 2 ^ 64
   \<and> (\<exists>kept. dedup tokenize md5_int raws = Some kept
        \<and> dedup tokenize md5_int (raws @ [raw]) =
            Some (if \<forall>k\<in>set kept.
                       3 \<le> differing_bits (simhash (fingerprinted tokenize md5_int raw)) (simhash k)
                  then kept @ [fingerprinted tokenize md5_int raw] else kept))"
proof -
  let ?a = "fingerprinted tokenize md5_int raw"
  have "seen_invariant [] []" by (simp add: seen_invariant_def)
  then obtain seen kept where
    run: "dedup_loop tokenize md5_int raws [] [] = Some (seen, kept)"
    and inv: "seen_invariant seen kept"
    using dedup_loop_total by blast
  have nn: "0 \<le> simhash ?a" using simhash_fingerprinted_range by blast
  have dup: "is_duplicate (simhash ?a) seen = Some (\<exists>s\<in>set seen. differing_bits (simhash ?a) s < 3)"
    using nn inv by (intro is_duplicate_total) (simp_all add: seen_invariant_def)
  have ex: "(\<exists>s\<in>set seen. differing_bits (simhash ?a) s < 3)
      \<longleftrightarrow> \<not> (\<forall>k\<in>set kept. 3 \<le> differing_bits (simhash ?a) (simhash k))"
    using inv by (auto simp: seen_invariant_def not_le)
  have last: "dedup_loop tokenize md5_int (raws @ [raw]) [] [] =
      Some (if \<forall>k\<in>set kept. 3 \<le> differing_bits (simhash ?a) (simhash k)
            then (List.insert (simhash ?a) seen, kept @ [?a]) else (seen, kept))"
    using run dup ex by (simp add: dedup_loop_append Let_def)
  have d1: "dedup tokenize md5_int raws = Some kept" using run by (simp add: dedup_def)
  have d2: "dedup tokenize md5_int (raws @ [raw]) =
      Some (if \<forall>k\<in>set kept. 3 \<le> differing_bits (simhash ?a) (simhash k)
            then kept @ [?a] else kept)"
    using last by (simp add: dedup_def)
  show ?thesis
    using hamming_distance_differing_bits [of h1 h2] simhash_fingerprinted_range [of tokenize md5_int raw]
      d1 d2 by blast
qed

theorem simhash_dedup_rule_witness:
  "(0::int) \<le> 8 \<and> (0::int) \<le> 7 \<and> hamming_distance 8 7 = Some 4 \<and> differing_bits 8 7 = 4
   \<and> simhash (fingerprinted toy_tokenize toy_md5 (raw_titled ''rate up'')) = 7
   \<and> simhash (fingerprinted toy_tokenize toy_md5 (raw_titled ''chip'')) = 8
   \<and> dedup toy_tokenize toy_md5 [raw_titled ''rate up'', raw_titled ''chip'']
       = Some [fingerprinted toy_tokenize toy_md5 (raw_titled ''rate up''),
               fingerprinted toy_tokenize toy_md5 (raw_titled ''chip'')]
   \<and> simhash (fingerprinted toy_tokenize toy_md5 (raw_titled ''rate down'')) = 7
   \<and> differing_bits 7 7 = 0
   \<and> dedup toy_tokenize toy_md5 [raw_titled ''rate up'', raw_titled ''rate down'']
       = Some [fingerprinted toy_tokenize toy_md5 (raw_titled ''rate up'')]"
proof -
  have s1: "simhash (fingerprinted toy_tokenize toy_md5 (raw_titled ''rate up'')) = 7"
    by code_simp
  have s2: "simhash (fingerprinted toy_tokenize toy_md5 (raw_titled ''chip'')) = 8"
    by code_simp
  have s3: "simhash (fingerprinted toy_tokenize toy_md5 (raw_titled ''rate down'')) = 7"
    by code_simp
  have h: "hamming_distance 8 7 = Some 4" "hamming_distance 7 7 = Some 0"
    by code_simp+
  have k: "dedup toy_tokenize toy_md5 [raw_titled ''rate up'']
      = Some [fingerprinted toy_tokenize toy_md5 (raw_titled ''rate up'')]"
    by code_simp
  note far = simhash_dedup_rule [of 8 7 toy_tokenize toy_md5 "raw_titled ''chip''"
      "[raw_titled ''rate up'']"]
  note near = simhash_dedup_rule [of 7 7 toy_tokenize toy_md5 "raw_titled ''rate down''"
      "[raw_titled ''rate up'']"]
  have d: "differing_bits 8 7 = 4" "differing_bits 7 7 = 0" using far near h by simp_all
  have kept: "dedup toy_tokenize toy_md5 [raw_titled ''rate up'', raw_titled ''chip'']
       = Some [fingerprinted toy_tokenize toy_md5 (raw_titled ''rate up''),
               fingerprinted toy_tokenize toy_md5 (raw_titled ''chip'')]"
    using far d s1 s2 k by simp
  have dropped: "dedup toy_tokenize toy_md5 [raw_titled ''rate up'', raw_titled ''rate down'']
       = Some [fingerprinted toy_tokenize toy_md5 (raw_titled ''rate up'')]"
    using near d s1 s3 k by simp
  show ?thesis using h d s1 s2 s3 kept dropped by simp
qed

end
